theory Spec2Isabelle
  imports Main "HOL-Library.Sublist"
begin

section \<open>Text primitives of the host language\<close>

text \<open>
  The program is \<^verbatim>\<open>gpt-extract.py\<close>. Its strings are sequences of code points; the
  model uses \<^typ>\<open>string\<close>, whose characters are the code points below 256, so
  \<open>length\<close> counts what \<^verbatim>\<open>len\<close> counts on such a text. The predicates below
  are the library operations the script calls, restricted to that range.
\<close>

definition newline :: char where
  "newline = CHR 0x0A"

definition tab :: char where
  "tab = CHR 0x09"

definition space :: char where
  "space = CHR '' ''"

definition isspace :: "char \<Rightarrow> bool" where
  \<comment> \<open>\<^verbatim>\<open>str.isspace\<close> on one code point below 256\<close>
  "isspace c = (of_char c \<in> {9, 10, 11, 12, 13, 28, 29, 30, 31, 32, 133, 160 :: nat})"

definition strip :: "string \<Rightarrow> string" where
  \<comment> \<open>\<^verbatim>\<open>s.strip()\<close>\<close>
  "strip s = rev (dropWhile isspace (rev (dropWhile isspace s)))"

definition lower_char :: "char \<Rightarrow> char" where
  "lower_char c =
     (let n = of_char c :: nat
      in if (65 \<le> n \<and> n \<le> 90) \<or> (192 \<le> n \<and> n \<le> 222 \<and> n \<noteq> 215)
         then char_of (n + 32) else c)"

definition lower :: "string \<Rightarrow> string" where
  \<comment> \<open>\<^verbatim>\<open>s.lower()\<close>\<close>
  "lower s = map lower_char s"

fun contains :: "string \<Rightarrow> string \<Rightarrow> bool" where
  \<comment> \<open>\<^verbatim>\<open>sub in s\<close>, written \<open>contains s sub\<close>\<close>
  "contains [] sub = (sub = [])"
| "contains (c # cs) sub = (prefix sub (c # cs) \<or> contains cs sub)"

function sub_runs :: "(char \<Rightarrow> bool) \<Rightarrow> char \<Rightarrow> string \<Rightarrow> string" where
  \<comment> \<open>\<^verbatim>\<open>re.sub("[...]+", r, s)\<close>: every maximal run of characters of the class
      becomes the single character \<open>r\<close>\<close>
  "sub_runs cls r [] = []"
| "sub_runs cls r (c # cs) =
     (if cls c then r # sub_runs cls r (dropWhile cls cs) else c # sub_runs cls r cs)"
  by pat_completeness auto
termination
  by (relation "measure (\<lambda>(cls, r, s). length s)")
     (auto simp: length_dropWhile_le less_Suc_eq_le)

function split :: "string \<Rightarrow> string \<Rightarrow> string list" where
  \<comment> \<open>\<^verbatim>\<open>s.split(sep)\<close> for a non-empty separator, written \<open>split sep s\<close>:
      occurrences are taken leftmost first and do not overlap\<close>
  "split sep [] = [[]]"
| "split sep (c # cs) =
     (if sep \<noteq> [] \<and> prefix sep (c # cs)
      then [] # split sep (drop (length sep) (c # cs))
      else (case split sep cs of
              [] \<Rightarrow> [[c]]
            | p # ps \<Rightarrow> (c # p) # ps))"
  by pat_completeness auto
termination
  by (relation "measure (\<lambda>(sep, s). length s)") auto

section \<open>Document preprocessing\<close>

definition DOC_MAX_LENGTH :: nat where
  "DOC_MAX_LENGTH = 3000"

definition cleaned :: "string \<Rightarrow> string" where
  \<comment> \<open>the local variable \<^verbatim>\<open>cleaned\<close> of \<^verbatim>\<open>clean_document\<close>\<close>
  "cleaned page_text =
     strip (sub_runs (\<lambda>c. c = tab \<or> c = space) space
              (sub_runs (\<lambda>c. c = newline) newline page_text))"

definition clean_document :: "string \<Rightarrow> string" where
  "clean_document page_text =
     (if length (cleaned page_text) < DOC_MAX_LENGTH then cleaned page_text
      else let front = take (DOC_MAX_LENGTH - 500) (cleaned page_text);
               end = drop (length (cleaned page_text) - 500) (cleaned page_text)
           in front @ [space] @ end)"

section \<open>Reply classification and the retry loop\<close>

datatype error =
  BadStateException string
| TimeoutException
| ValueError

datatype event = Ask string | Sleep nat

text \<open>
  The chat session is an external collaborator. It is a state machine: \<open>ask c prompt\<close>
  gives the reply (\<open>None\<close> when the wrapper raises \<^verbatim>\<open>TimeoutException\<close>) and the
  session's next state. The events record, in order, each prompt sent and each
  \<^verbatim>\<open>time.sleep\<close> with its seconds; printing is left out.
\<close>

type_synonym 'c chat = "'c \<Rightarrow> string \<Rightarrow> string option \<times> 'c"

definition unusable :: string where
  "unusable = ''unusable response produced by chatgpt''"

definition bad_input :: string where
  "bad_input = ''it is not possible to generate a json representation of the provided text''"

definition too_many :: string where
  "too_many = ''HTTP Error 429: Too many requests''"

function scrape_loop ::
  "'c chat \<Rightarrow> string \<Rightarrow> nat \<Rightarrow> 'c \<Rightarrow> (error + string option) \<times> 'c \<times> event list" where
  "scrape_loop ask current_prompt waited c =
     (case ask c current_prompt of
        (None, c') \<Rightarrow> (Inl TimeoutException, c', [Ask current_prompt])
      | (Some response, c') \<Rightarrow>
          if waited + 1 > 5
          then (Inl (BadStateException ''Exceeded 5 wait states, starting over.''), c',
                [Ask current_prompt])
          else if contains (lower response) unusable
          then (case scrape_loop ask current_prompt (waited + 1) c' of
                  (r, c'', evs) \<Rightarrow>
                    (r, c'', Ask current_prompt # Sleep (120 * (waited + 1)) # evs))
          else if contains (lower response) bad_input
          then (Inr None, c', [Ask current_prompt])
          else if strip response = too_many
          then (Inl (BadStateException ''Hour is over, restart!''), c',
                [Ask current_prompt, Sleep (60 * 60)])
          else if \<not> contains response ''}''
          then (Inl (BadStateException ''Not returning full JSON.''), c',
                [Ask current_prompt])
          else (Inr (Some response), c', [Ask current_prompt]))"
  by pat_completeness auto
termination
  by (relation "measure (\<lambda>(ask, current_prompt, waited, c). 6 - waited)") auto

declare scrape_loop.simps [simp del]

definition make_prompt :: "string \<Rightarrow> string \<Rightarrow> string" where
  \<comment> \<open>the f-string of \<^verbatim>\<open>scrape_via_prompt\<close>; \<open>schema\<close> is the text the schema
      object formats to\<close>
  "make_prompt page_text schema =
     ''```'' @ clean_document page_text @ ''```'' @ [newline, newline] @
     ''For the given text, can you provide a JSON representation that strictly follows this schema:'' @
     [newline, newline] @ ''```'' @ schema @ ''```''"

definition scrape_via_prompt ::
  "'c chat \<Rightarrow> 'c \<Rightarrow> string \<Rightarrow> string \<Rightarrow> (error + string \<times> string option) \<times> 'c \<times> event list" where
  "scrape_via_prompt ask c page_text schema =
     (let prompt = make_prompt page_text schema
      in case scrape_loop ask prompt 0 c of
           (Inl e, c', evs) \<Rightarrow> (Inl e, c', evs)
         | (Inr response, c', evs) \<Rightarrow> (Inr (prompt, response), c', evs))"

section \<open>The result store\<close>

record document =
  doc_id :: int
  doc_text :: string

record 'j result =
  r_id :: int
  r_text :: string
  r_prompt :: string
  r_response :: "string option"
  r_data :: "'j option"

fun upsert_result :: "'j result list \<Rightarrow> 'j result \<Rightarrow> 'j result list" where
  \<comment> \<open>the source updates the list in place; the model returns the updated list\<close>
  "upsert_result [] result = [result]"
| "upsert_result (r_result # results) result =
     (if r_id r_result \<noteq> r_id result then r_result # upsert_result results result
      else result # results)"

section \<open>The orchestrator\<close>

text \<open>
  \<^verbatim>\<open>json.loads\<close> is a parameter \<open>loads\<close>: \<open>None\<close> stands for a raised parse error
  and for the parsed value \<^verbatim>\<open>null\<close> alike, both of which leave \<^verbatim>\<open>data\<close> at
  \<^verbatim>\<open>None\<close>. The output file is the field \<open>outfile\<close>, \<open>None\<close> while it does not exist.
  Document ids and the cursor \<^verbatim>\<open>continue_at\<close> are integers, as the comparison and the
  \<^verbatim>\<open>max(...) + 1\<close> of \<^verbatim>\<open>run\<close> need. Starting the browser, the wait for the Enter key
  and the page reload change nothing the loop reads; of the start-up only the sleep of
  the headless mode is recorded.
\<close>

record ('j, 'c) session =
  results :: "'j result list"
  first_scrape :: bool
  chat :: 'c
  trace :: "event list"
  outfile :: "'j result list option"

definition parse_data :: "(string \<Rightarrow> 'j option) \<Rightarrow> string option \<Rightarrow> 'j option" where
  \<comment> \<open>the \<^verbatim>\<open>try\<close> block around \<^verbatim>\<open>json.loads(response.split("```")[1])\<close>: every
      exception leaves \<^verbatim>\<open>data\<close> at \<^verbatim>\<open>None\<close>\<close>
  "parse_data loads response =
     (case response of
        None \<Rightarrow> None
      | Some r \<Rightarrow>
          (case split ''```'' r of
             _ # part # _ \<Rightarrow> loads part
           | _ \<Rightarrow> None))"

definition run_step ::
  "'c chat \<Rightarrow> (string \<Rightarrow> 'j option) \<Rightarrow> string \<Rightarrow> int option \<Rightarrow> document \<Rightarrow>
   ('j, 'c) session \<Rightarrow> error option \<times> ('j, 'c) session" where
  \<comment> \<open>one pass through the body of the \<^verbatim>\<open>for\<close> loop of \<^verbatim>\<open>run\<close>\<close>
  "run_step ask loads schema continue_at page_data s =
     (let pk = doc_id page_data; page_text = doc_text page_data
      in if page_text = [] then (None, s)
         else if (case continue_at of None \<Rightarrow> False | Some k \<Rightarrow> pk < k) then (None, s)
         else
           let s1 = (if \<not> first_scrape s
                     then s\<lparr>trace := trace s @ [Sleep 60], first_scrape := False\<rparr>
                     else s)
           in case scrape_via_prompt ask (chat s1) page_text schema of
                (Inl e, c', evs) \<Rightarrow> (Some e, s1\<lparr>chat := c', trace := trace s1 @ evs\<rparr>)
              | (Inr (prompt, response), c', evs) \<Rightarrow>
                  let data = parse_data loads response;
                      result = \<lparr>r_id = pk, r_text = page_text, r_prompt = prompt,
                                r_response = response, r_data = data\<rparr>;
                      results' = upsert_result (results s1) result
                  in (None, s1\<lparr>chat := c', trace := trace s1 @ evs,
                                results := results', outfile := Some results'\<rparr>))"

fun run_loop ::
  "'c chat \<Rightarrow> (string \<Rightarrow> 'j option) \<Rightarrow> string \<Rightarrow> int option \<Rightarrow> document list \<Rightarrow>
   ('j, 'c) session \<Rightarrow> error option \<times> ('j, 'c) session" where
  "run_loop ask loads schema continue_at [] s = (None, s)"
| "run_loop ask loads schema continue_at (page_data # documents) s =
     (case run_step ask loads schema continue_at page_data s of
        (Some e, s') \<Rightarrow> (Some e, s')
      | (None, s') \<Rightarrow> run_loop ask loads schema continue_at documents s')"

definition resume_cursor :: "'j result list \<Rightarrow> error + int" where
  \<comment> \<open>\<^verbatim>\<open>max(list(already_scraped)) + 1\<close>; \<^verbatim>\<open>max\<close> raises on an empty list\<close>
  "resume_cursor rs =
     (let already_scraped = set (map r_id rs)
      in if already_scraped = {} then Inl ValueError else Inr (Max already_scraped + 1))"

definition run ::
  "'c chat \<Rightarrow> (string \<Rightarrow> 'j option) \<Rightarrow> 'c \<Rightarrow> document list \<Rightarrow> string \<Rightarrow>
   'j result list option \<Rightarrow> bool \<Rightarrow> int option \<Rightarrow> bool \<Rightarrow> error option \<times> ('j, 'c) session" where
  "run ask loads c documents schema file headless continue_at continue_last =
     (let s0 = \<lparr>results = (case file of None \<Rightarrow> [] | Some rs \<Rightarrow> rs),
                first_scrape = True, chat = c,
                trace = (if headless then [Sleep 5] else []), outfile = file\<rparr>
      in if continue_last
         then (case resume_cursor (results s0) of
                 Inl e \<Rightarrow> (Some e, s0)
               | Inr k \<Rightarrow> run_loop ask loads schema (Some k) documents s0)
         else run_loop ask loads schema continue_at documents s0)"

text \<open>A chat session that plays back a fixed list of replies and times out after it.\<close>

definition scripted :: "(string option list) chat" where
  "scripted rs prompt = (case rs of [] \<Rightarrow> (None, []) | r # rs' \<Rightarrow> (r, rs'))"

text \<open>
  What a session does when the same prompt is put to it \<open>n\<close> times from state \<open>c\<close>: the
  replies in order and the state it ends in.
\<close>

fun ask_times :: "'c chat \<Rightarrow> string \<Rightarrow> nat \<Rightarrow> 'c \<Rightarrow> string option list \<times> 'c" where
  "ask_times ask prompt 0 c = ([], c)"
| "ask_times ask prompt (Suc n) c =
     (case ask c prompt of
        (r, c') \<Rightarrow> (case ask_times ask prompt n c' of (rs, c'') \<Rightarrow> (r # rs, c'')))"

text \<open>
  The events of \<open>n\<close> unusable replies in a row, the first of them being attempt
  \<open>waited + 1\<close>: each attempt is followed by a sleep of 120 seconds times its number.
\<close>

definition backoff :: "string \<Rightarrow> nat \<Rightarrow> nat \<Rightarrow> event list" where
  "backoff prompt waited n =
     concat (map (\<lambda>k. [Ask prompt, Sleep (120 * k)]) [Suc waited ..< Suc (waited + n)])"

section \<open>Properties of the preprocessing\<close>

lemma sub_runs_id: "\<forall>c\<in>set s. \<not> cls c \<Longrightarrow> sub_runs cls r s = s"
  by (induction s) auto

lemma dropWhile_none: "\<forall>c\<in>set s. \<not> P c \<Longrightarrow> dropWhile P s = s"
  by (cases s) auto

lemma strip_id: "\<forall>c\<in>set s. \<not> isspace c \<Longrightarrow> strip s = s"
  by (simp add: strip_def dropWhile_none)

lemma cleaned_letters: "cleaned (replicate n (CHR ''a'')) = replicate n (CHR ''a'')"
  by (simp add: cleaned_def sub_runs_id strip_id isspace_def tab_def space_def newline_def)

lemma clean_document_long:
  "DOC_MAX_LENGTH \<le> length (cleaned t) \<Longrightarrow>
   clean_document t = take 2500 (cleaned t) @ '' '' @ drop (length (cleaned t) - 500) (cleaned t)"
  by (simp add: clean_document_def DOC_MAX_LENGTH_def space_def Let_def)

lemma clean_document_short:
  "length (cleaned t) < DOC_MAX_LENGTH \<Longrightarrow> clean_document t = cleaned t"
  by (simp add: clean_document_def)

text \<open>
  Claim C3, as amended. Whenever the cleaned text is longer than 3000 characters,
  \<^verbatim>\<open>clean_document\<close> returns its first \<open>DOC_MAX_LENGTH - 500\<close> characters, one space
  and its last 500 characters. That excerpt has 2500 + 1 + 500 = 3001 characters; the
  figure 2501 of the claim is not the length of what the code builds.
\<close>

theorem clean_document_truncates:
  "3000 < length (cleaned t) \<Longrightarrow>
   clean_document t =
     take (DOC_MAX_LENGTH - 500) (cleaned t) @ '' '' @ drop (length (cleaned t) - 500) (cleaned t)
   \<and> length (clean_document t) = 3001"
  by (simp add: clean_document_long DOC_MAX_LENGTH_def)

theorem clean_document_truncates_witness:
  "3000 < length (cleaned (replicate 3500 (CHR ''a''))) \<and>
   clean_document (replicate 3500 (CHR ''a'')) = replicate 2500 (CHR ''a'') @ '' '' @ replicate 500 (CHR ''a'')
   \<and> length (clean_document (replicate 3500 (CHR ''a''))) = 3001"
  using clean_document_truncates [of "replicate 3500 (CHR ''a'')"]
  by (simp add: cleaned_letters DOC_MAX_LENGTH_def)

text \<open>
  Claim C3 as stated gives the excerpt 2501 characters. A text of 3001 letters is cleaned
  to itself, is longer than 3000, and its excerpt does not have 2501 characters.
\<close>

theorem clean_document_length_counterexample:
  "3000 < length (cleaned (replicate 3001 (CHR ''a''))) \<and>
   length (clean_document (replicate 3001 (CHR ''a''))) \<noteq> 2501"
  by (simp add: cleaned_letters clean_document_long DOC_MAX_LENGTH_def)

text \<open>
  Claim C4 says that a cleaned text of at most 3000 characters is returned unchanged. The
  guard of \<^verbatim>\<open>clean_document\<close> is the strict \<^verbatim>\<open>len(cleaned) < DOC_MAX_LENGTH\<close>, so a
  cleaned text of exactly 3000 characters is cut and rejoined around an inserted space:
  the result differs from the cleaned text and is one character longer.
\<close>

theorem clean_document_at_limit:
  "length (cleaned (replicate 3000 (CHR ''a''))) \<le> 3000 \<and>
   clean_document (replicate 3000 (CHR ''a'')) =
     replicate 2500 (CHR ''a'') @ '' '' @ replicate 500 (CHR ''a'') \<and>
   clean_document (replicate 3000 (CHR ''a'')) \<noteq> cleaned (replicate 3000 (CHR ''a''))"
proof -
  let ?t = "replicate 3000 (CHR ''a'')"
  have c: "cleaned ?t = ?t" by (rule cleaned_letters)
  have d: "clean_document ?t = replicate 2500 (CHR ''a'') @ '' '' @ replicate 500 (CHR ''a'')"
    by (simp add: clean_document_long c DOC_MAX_LENGTH_def)
  have "length (clean_document ?t) \<noteq> length (cleaned ?t)"
    by (simp add: d c)
  then have "clean_document ?t \<noteq> cleaned ?t" by metis
  with c d show ?thesis by simp
qed

section \<open>Properties of the result store\<close>

lemma upsert_ids:
  "map r_id (upsert_result rs a) =
     (if r_id a \<in> set (map r_id rs) then map r_id rs else map r_id rs @ [r_id a])"
  by (induction rs) auto

lemma upsert_distinct: "distinct (map r_id rs) \<Longrightarrow> distinct (map r_id (upsert_result rs a))"
  by (simp add: upsert_ids)

lemma upsert_splice:
  "upsert_result rs a =
     take (length (takeWhile (\<lambda>r. r_id r \<noteq> r_id a) rs)) rs @ a #
     drop (Suc (length (takeWhile (\<lambda>r. r_id r \<noteq> r_id a) rs))) rs"
  by (induction rs) auto

lemma upsert_filter:
  "distinct (map r_id rs) \<Longrightarrow> filter (\<lambda>r. r_id r = r_id a) (upsert_result rs a) = [a]"
proof (induction rs)
  case Nil
  then show ?case by simp
next
  case (Cons r rs)
  show ?case
  proof (cases "r_id r = r_id a")
    case True
    with Cons.prems have "r_id a \<notin> r_id ` set rs" by simp
    then have "\<forall>x\<in>set rs. r_id x \<noteq> r_id a" by (metis imageI)
    then have "filter (\<lambda>r. r_id r = r_id a) rs = []" by (simp add: filter_empty_conv)
    with True show ?thesis by simp
  next
    case False
    with Cons show ?thesis by simp
  qed
qed

lemma upsert_keeps_ids:
  "p < length rs \<Longrightarrow> p < length (upsert_result rs x) \<and> r_id (upsert_result rs x ! p) = r_id (rs ! p)"
proof (induction rs arbitrary: p)
  case Nil
  then show ?case by simp
next
  case (Cons r rs)
  then show ?case by (cases p) auto
qed

lemma upserts_keep_ids:
  "p < length rs \<Longrightarrow>
   p < length (foldl upsert_result rs xs) \<and> r_id (foldl upsert_result rs xs ! p) = r_id (rs ! p)"
proof (induction xs arbitrary: rs)
  case Nil
  then show ?case by simp
next
  case (Cons x xs)
  from upsert_keeps_ids [OF Cons.prems, of x] Cons.IH [of "upsert_result rs x"]
  show ?case by simp
qed

lemma upserts_distinct:
  "distinct (map r_id rs) \<Longrightarrow> distinct (map r_id (foldl upsert_result rs xs))"
  by (induction xs arbitrary: rs) (simp_all add: upsert_distinct)

lemma upsert_at:
  "distinct (map r_id rs) \<Longrightarrow> p < length rs \<Longrightarrow> r_id (rs ! p) = r_id b \<Longrightarrow>
   upsert_result rs b = rs[p := b]"
proof (induction rs arbitrary: p)
  case Nil
  then show ?case by simp
next
  case (Cons r rs)
  show ?case
  proof (cases p)
    case 0
    with Cons.prems show ?thesis by simp
  next
    case (Suc q)
    with Cons.prems have q: "q < length rs" "r_id (rs ! q) = r_id b" by simp_all
    then have "r_id b \<in> r_id ` set rs" by (metis imageI nth_mem)
    with Cons.prems have "r_id r \<noteq> r_id b" by auto
    with Cons.IH [of q] Cons.prems q Suc show ?thesis by simp
  qed
qed

text \<open>
  Claim C8. Take a store with at most one entry per id and two results \<open>a\<close>, \<open>b\<close> with
  the same id. Upserting \<open>a\<close> puts it at position \<open>p\<close>, the place of the entry with that id
  if there was one and the end of the store otherwise, and keeps ids unique. Upserting
  \<open>b\<close> next changes that position only. Also after any further upserts \<open>mids\<close> in between,
  upserting \<open>b\<close> leaves \<open>b\<close> at position \<open>p\<close> as the one entry with that id, with ids
  still unique.
\<close>

theorem upsert_result_replaces:
  assumes "distinct (map r_id rs)" and "r_id a = r_id b"
  shows "let p = length (takeWhile (\<lambda>r. r_id r \<noteq> r_id a) rs);
             rs1 = upsert_result rs a;
             rs2 = upsert_result (foldl upsert_result rs1 mids) b
         in p < length rs1 \<and> rs1 ! p = a \<and> distinct (map r_id rs1) \<and>
            upsert_result rs1 b = rs1[p := b] \<and>
            rs2 ! p = b \<and> filter (\<lambda>r. r_id r = r_id b) rs2 = [b] \<and> distinct (map r_id rs2)"
proof -
  define p where "p = length (takeWhile (\<lambda>r. r_id r \<noteq> r_id a) rs)"
  define rs1 where "rs1 = upsert_result rs a"
  define rsm where "rsm = foldl upsert_result rs1 mids"
  have p_le: "p \<le> length rs" unfolding p_def by (rule length_takeWhile_le)
  have splice: "rs1 = take p rs @ a # drop (Suc p) rs"
    unfolding rs1_def p_def by (rule upsert_splice)
  from p_le have len: "p < length rs1" by (simp add: splice)
  from p_le have at: "rs1 ! p = a" by (simp add: splice nth_append)
  have d1: "distinct (map r_id rs1)" unfolding rs1_def using assms(1) by (rule upsert_distinct)
  have one: "upsert_result rs1 b = rs1[p := b]"
    using d1 len at assms(2) by (simp add: upsert_at)
  have dm: "distinct (map r_id rsm)" unfolding rsm_def using d1 by (rule upserts_distinct)
  from upserts_keep_ids [OF len, of mids] at assms(2)
  have pm: "p < length rsm" "r_id (rsm ! p) = r_id b" by (simp_all add: rsm_def)
  have two: "upsert_result rsm b = rsm[p := b]" using dm pm by (rule upsert_at)
  have "upsert_result rsm b ! p = b" using pm by (simp add: two)
  moreover have "filter (\<lambda>r. r_id r = r_id b) (upsert_result rsm b) = [b]"
    using dm by (rule upsert_filter)
  moreover have "distinct (map r_id (upsert_result rsm b))" using dm by (rule upsert_distinct)
  ultimately show ?thesis
    using len at d1 one by (simp add: Let_def p_def [symmetric] rs1_def [symmetric] rsm_def [symmetric])
qed

theorem upsert_result_replaces_witness:
  "distinct (map r_id [\<lparr>r_id = 0, r_text = ''a'', r_prompt = ''p'', r_response = None, r_data = None :: unit option\<rparr>,
                      \<lparr>r_id = 2, r_text = ''b'', r_prompt = ''p'', r_response = None, r_data = None\<rparr>]) \<and>
   upsert_result (upsert_result
      [\<lparr>r_id = 0, r_text = ''a'', r_prompt = ''p'', r_response = None, r_data = None :: unit option\<rparr>,
       \<lparr>r_id = 2, r_text = ''b'', r_prompt = ''p'', r_response = None, r_data = None\<rparr>]
      \<lparr>r_id = 0, r_text = ''c'', r_prompt = ''p'', r_response = None, r_data = None\<rparr>)
      \<lparr>r_id = 0, r_text = ''d'', r_prompt = ''p'', r_response = None, r_data = None\<rparr> ! 0 =
      \<lparr>r_id = 0, r_text = ''d'', r_prompt = ''p'', r_response = None, r_data = None\<rparr>"
  using upsert_result_replaces [of
      "[\<lparr>r_id = 0, r_text = ''a'', r_prompt = ''p'', r_response = None, r_data = None :: unit option\<rparr>,
       \<lparr>r_id = 2, r_text = ''b'', r_prompt = ''p'', r_response = None, r_data = None\<rparr>]"
      "\<lparr>r_id = 0, r_text = ''c'', r_prompt = ''p'', r_response = None, r_data = None\<rparr>"
      "\<lparr>r_id = 0, r_text = ''d'', r_prompt = ''p'', r_response = None, r_data = None\<rparr>" "[]"]
  by simp

section \<open>Properties of the retry loop\<close>

text \<open>
  One pass through the body of the \<^verbatim>\<open>while\<close> loop, by the branch it takes. The
  counter is tested first: the sixth reply is never looked at.
\<close>

lemma scrape_loop_exceeded:
  "ask c p = (Some r, c') \<Longrightarrow> 5 \<le> waited \<Longrightarrow>
   scrape_loop ask p waited c =
     (Inl (BadStateException ''Exceeded 5 wait states, starting over.''), c', [Ask p])"
  by (subst scrape_loop.simps) simp

lemma scrape_loop_unusable:
  "ask c p = (Some r, c') \<Longrightarrow> waited < 5 \<Longrightarrow> contains (lower r) unusable \<Longrightarrow>
   scrape_loop ask p waited c =
     (case scrape_loop ask p (Suc waited) c' of
        (x, c'', evs) \<Rightarrow> (x, c'', Ask p # Sleep (120 * Suc waited) # evs))"
  by (subst scrape_loop.simps) simp

lemma scrape_loop_refused:
  "ask c p = (Some r, c') \<Longrightarrow> waited < 5 \<Longrightarrow> \<not> contains (lower r) unusable \<Longrightarrow>
   contains (lower r) bad_input \<Longrightarrow>
   scrape_loop ask p waited c = (Inr None, c', [Ask p])"
  by (subst scrape_loop.simps) simp

lemma scrape_loop_incomplete:
  "ask c p = (Some r, c') \<Longrightarrow> waited < 5 \<Longrightarrow> \<not> contains (lower r) unusable \<Longrightarrow>
   \<not> contains (lower r) bad_input \<Longrightarrow> strip r \<noteq> too_many \<Longrightarrow> \<not> contains r ''}'' \<Longrightarrow>
   scrape_loop ask p waited c =
     (Inl (BadStateException ''Not returning full JSON.''), c', [Ask p])"
  by (subst scrape_loop.simps) simp

lemma scrape_loop_accepted:
  "ask c p = (Some r, c') \<Longrightarrow> waited < 5 \<Longrightarrow> \<not> contains (lower r) unusable \<Longrightarrow>
   \<not> contains (lower r) bad_input \<Longrightarrow> strip r \<noteq> too_many \<Longrightarrow> contains r ''}'' \<Longrightarrow>
   scrape_loop ask p waited c = (Inr (Some r), c', [Ask p])"
  by (subst scrape_loop.simps) simp

lemma backoff_0: "backoff p waited 0 = []"
  by (simp add: backoff_def)

lemma backoff_Suc:
  "backoff p waited (Suc n) = Ask p # Sleep (120 * Suc waited) # backoff p (Suc waited) n"
  by (simp add: backoff_def upt_conv_Cons del: upt_Suc)

lemma scrape_loop_degraded:
  "\<forall>d\<in>set ds. contains (lower d) unusable \<Longrightarrow> waited + length ds \<le> 5 \<Longrightarrow>
   ask_times ask p (length ds) c = (map Some ds, c1) \<Longrightarrow>
   scrape_loop ask p waited c =
     (case scrape_loop ask p (waited + length ds) c1 of
        (x, c2, evs) \<Rightarrow> (x, c2, backoff p waited (length ds) @ evs))"
proof (induction ds arbitrary: waited c)
  case Nil
  then show ?case by (simp add: backoff_0)
next
  case (Cons d ds)
  from Cons.prems(3) obtain c' where a: "ask c p = (Some d, c')"
    and rest: "ask_times ask p (length ds) c' = (map Some ds, c1)"
    by (auto split: prod.splits)
  from Cons.prems have w: "waited < 5" and d: "contains (lower d) unusable"
    and ds: "\<forall>d\<in>set ds. contains (lower d) unusable" and w': "Suc waited + length ds \<le> 5"
    by simp_all
  have "scrape_loop ask p waited c =
          (case scrape_loop ask p (Suc waited) c' of
             (x, c'', evs) \<Rightarrow> (x, c'', Ask p # Sleep (120 * Suc waited) # evs))"
    using a w d by (rule scrape_loop_unusable)
  then show ?case
    by (simp add: Cons.IH [OF ds w' rest] backoff_Suc split: prod.splits)
qed

lemma scrape_via_prompt_degraded:
  assumes "\<forall>d\<in>set ds. contains (lower d) unusable" and "length ds \<le> 5"
    and "ask_times ask (make_prompt page_text schema) (length ds) c = (map Some ds, c1)"
  shows "scrape_via_prompt ask c page_text schema =
     (case scrape_loop ask (make_prompt page_text schema) (length ds) c1 of
        (Inl e, c2, evs) \<Rightarrow> (Inl e, c2, backoff (make_prompt page_text schema) 0 (length ds) @ evs)
      | (Inr response, c2, evs) \<Rightarrow>
          (Inr (make_prompt page_text schema, response), c2,
           backoff (make_prompt page_text schema) 0 (length ds) @ evs))"
proof -
  from assms(2) have "0 + length ds \<le> 5" by simp
  from scrape_loop_degraded [OF assms(1) this assms(3)]
  show ?thesis
    by (simp add: scrape_via_prompt_def Let_def split: prod.splits sum.splits)
qed

lemma run_step_active:
  assumes "doc_text d \<noteq> []" and "\<forall>k. continue_at = Some k \<longrightarrow> k \<le> doc_id d"
    and "first_scrape s"
  shows "run_step ask loads schema continue_at d s =
     (case scrape_via_prompt ask (chat s) (doc_text d) schema of
        (Inl e, c', evs) \<Rightarrow> (Some e, s\<lparr>chat := c', trace := trace s @ evs\<rparr>)
      | (Inr (prompt, response), c', evs) \<Rightarrow>
          (None, s\<lparr>chat := c', trace := trace s @ evs,
                   results := upsert_result (results s)
                     \<lparr>r_id = doc_id d, r_text = doc_text d, r_prompt = prompt,
                      r_response = response, r_data = parse_data loads response\<rparr>,
                   outfile := Some (upsert_result (results s)
                     \<lparr>r_id = doc_id d, r_text = doc_text d, r_prompt = prompt,
                      r_response = response, r_data = parse_data loads response\<rparr>)\<rparr>))"
proof -
  from assms(2) have "\<not> (case continue_at of None \<Rightarrow> False | Some k \<Rightarrow> doc_id d < k)"
    by (cases continue_at) auto
  with assms(1,3) show ?thesis
    by (simp add: run_step_def Let_def split: prod.splits sum.splits)
qed

text \<open>
  Facts about the concrete replies and sessions used in the examples below.
\<close>

lemma ask_times_scripted:
  "ask_times scripted p (length rs) (map Some rs @ rest) = (map Some rs, rest)"
  by (induction rs) (simp_all add: scripted_def)

lemma scrape_via_prompt_plain:
  assumes "\<not> contains (lower r) unusable" and "\<not> contains (lower r) bad_input"
    and "strip r \<noteq> too_many" and "contains r ''}''"
  shows "scrape_via_prompt scripted (Some r # rest) page_text schema =
     (Inr (make_prompt page_text schema, Some r), rest, [Ask (make_prompt page_text schema)])"
proof -
  have "scripted (Some r # rest) (make_prompt page_text schema) = (Some r, rest)"
    by (simp add: scripted_def)
  then have "scrape_loop scripted (make_prompt page_text schema) 0 (Some r # rest) =
          (Inr (Some r), rest, [Ask (make_prompt page_text schema)])"
    using _ assms by (rule scrape_loop_accepted) simp
  then show ?thesis by (simp add: scrape_via_prompt_def Let_def)
qed

lemma unusable_marked: "contains (lower unusable) unusable"
  by code_simp

lemma bad_input_marked:
  "\<not> contains (lower bad_input) unusable" "contains (lower bad_input) bad_input"
  by code_simp+

lemma braces_plain:
  "\<not> contains (lower ''{}'') unusable" "\<not> contains (lower ''{}'') bad_input"
  "strip ''{}'' \<noteq> too_many" "contains ''{}'' ''}''"
  by code_simp+

lemma braces_unfenced: "\<not> contains ''{}'' ''```''"
  by code_simp

lemma oops_plain:
  "\<not> contains (lower ''oops'') unusable" "\<not> contains (lower ''oops'') bad_input"
  "strip ''oops'' \<noteq> too_many" "\<not> contains ''oops'' ''}''"
  by code_simp+


lemma backoff_1: "backoff p 0 (Suc 0) = [Ask p, Sleep 120]"
  by (simp add: backoff_def)

lemma backoff_2: "backoff p 0 2 = [Ask p, Sleep 120, Ask p, Sleep 240]"
  by (simp add: backoff_def upt_rec)

lemma backoff_5:
  "backoff p 0 5 = [Ask p, Sleep 120, Ask p, Sleep 240, Ask p, Sleep 360, Ask p, Sleep 480,
                    Ask p, Sleep 600]"
  by (simp add: backoff_def upt_rec)

subsection \<open>Unusable replies\<close>

text \<open>
  Claim C1, as amended. The session answers the prompt of one document with the replies
  \<open>ds\<close>, each carrying the marker \<open>unusable\<close> in any letter case, and then with \<open>r\<close>.
  After each reply of \<open>ds\<close> the loop sleeps 120 seconds times the number of such replies so
  far and asks again (\<open>backoff\<close>). If \<open>ds\<close> has five replies, the sixth attempt raises
  \<^verbatim>\<open>BadStateException\<close> whatever \<open>r\<close> is, so also when \<open>r\<close> carries the marker again. If
  \<open>ds\<close> has at most four replies and \<open>r\<close> passes all four checks of the loop, \<open>r\<close> is
  accepted: it carries neither the marker \<open>unusable\<close> nor the marker \<open>bad_input\<close>, it is
  not the rate-limit sentinel when stripped, and it holds a closing brace. A reply
  without a closing brace carries no marker either and is not accepted; it is the subject
  of Claim C6.
\<close>

theorem degraded_retry_bound:
  assumes "\<forall>d\<in>set ds. contains (lower d) unusable"
    and "ask_times ask (make_prompt page_text schema) (length ds) c = (map Some ds, c1)"
    and "ask c1 (make_prompt page_text schema) = (Some r, c2)"
  shows "(length ds = 5 \<longrightarrow>
            scrape_via_prompt ask c page_text schema =
              (Inl (BadStateException ''Exceeded 5 wait states, starting over.''), c2,
               backoff (make_prompt page_text schema) 0 5 @ [Ask (make_prompt page_text schema)]))
       \<and> (length ds < 5 \<and> \<not> contains (lower r) unusable \<and> \<not> contains (lower r) bad_input \<and>
          strip r \<noteq> too_many \<and> contains r ''}'' \<longrightarrow>
            scrape_via_prompt ask c page_text schema =
              (Inr (make_prompt page_text schema, Some r), c2,
               backoff (make_prompt page_text schema) 0 (length ds) @
               [Ask (make_prompt page_text schema)]))"
proof (intro conjI impI)
  assume n: "length ds = 5"
  then have le: "length ds \<le> 5" by simp
  have "scrape_loop ask (make_prompt page_text schema) (length ds) c1 =
          (Inl (BadStateException ''Exceeded 5 wait states, starting over.''), c2,
           [Ask (make_prompt page_text schema)])"
    using assms(3) by (rule scrape_loop_exceeded) (simp add: n)
  then show "scrape_via_prompt ask c page_text schema =
              (Inl (BadStateException ''Exceeded 5 wait states, starting over.''), c2,
               backoff (make_prompt page_text schema) 0 5 @ [Ask (make_prompt page_text schema)])"
    using n by (simp add: scrape_via_prompt_degraded [OF assms(1) le assms(2)])
next
  assume h: "length ds < 5 \<and> \<not> contains (lower r) unusable \<and> \<not> contains (lower r) bad_input \<and>
          strip r \<noteq> too_many \<and> contains r ''}''"
  then have le: "length ds \<le> 5" by simp
  have "scrape_loop ask (make_prompt page_text schema) (length ds) c1 =
          (Inr (Some r), c2, [Ask (make_prompt page_text schema)])"
    using assms(3) h by (intro scrape_loop_accepted) simp_all
  then show "scrape_via_prompt ask c page_text schema =
              (Inr (make_prompt page_text schema, Some r), c2,
               backoff (make_prompt page_text schema) 0 (length ds) @
               [Ask (make_prompt page_text schema)])"
    by (simp add: scrape_via_prompt_degraded [OF assms(1) le assms(2)])
qed

text \<open>
  The theorem for Claim C1 at two sessions: six unusable replies in a row end in the
  abort on the sixth attempt after sleeps of 120, 240, 360, 480 and 600 seconds; two
  unusable replies followed by \<^verbatim>\<open>{}\<close> end in acceptance after sleeps of 120 and 240
  seconds.
\<close>

theorem degraded_retry_bound_witness:
  "scrape_via_prompt scripted
     (map Some (replicate 5 unusable) @ [Some unusable, Some ''{}'']) ''doc'' ''{}'' =
     (Inl (BadStateException ''Exceeded 5 wait states, starting over.''), [Some ''{}''],
      [Ask (make_prompt ''doc'' ''{}''), Sleep 120, Ask (make_prompt ''doc'' ''{}''), Sleep 240,
       Ask (make_prompt ''doc'' ''{}''), Sleep 360, Ask (make_prompt ''doc'' ''{}''), Sleep 480,
       Ask (make_prompt ''doc'' ''{}''), Sleep 600, Ask (make_prompt ''doc'' ''{}'')]) \<and>
   scrape_via_prompt scripted (map Some (replicate 2 unusable) @ [Some ''{}'']) ''doc'' ''{}'' =
     (Inr (make_prompt ''doc'' ''{}'', Some ''{}''), [],
      [Ask (make_prompt ''doc'' ''{}''), Sleep 120, Ask (make_prompt ''doc'' ''{}''), Sleep 240,
       Ask (make_prompt ''doc'' ''{}'')])"
proof -
  let ?p = "make_prompt ''doc'' ''{}''"
  have m5: "\<forall>d\<in>set (replicate 5 unusable). contains (lower d) unusable"
    and m2: "\<forall>d\<in>set (replicate 2 unusable). contains (lower d) unusable"
    by (simp_all add: unusable_marked)
  have a5: "ask_times scripted ?p (length (replicate 5 unusable))
              (map Some (replicate 5 unusable) @ [Some unusable, Some ''{}'']) =
            (map Some (replicate 5 unusable), [Some unusable, Some ''{}''])"
    by (rule ask_times_scripted)
  have b5: "scripted [Some unusable, Some ''{}''] ?p = (Some unusable, [Some ''{}''])"
    by (simp add: scripted_def)
  have a2: "ask_times scripted ?p (length (replicate 2 unusable))
              (map Some (replicate 2 unusable) @ [Some ''{}'']) =
            (map Some (replicate 2 unusable), [Some ''{}''])"
    by (rule ask_times_scripted)
  have b2: "scripted [Some ''{}''] ?p = (Some ''{}'', [])"
    by (simp add: scripted_def)
  from degraded_retry_bound [OF m5 a5 b5] degraded_retry_bound [OF m2 a2 b2]
  show ?thesis
    by (simp add: braces_plain backoff_5 backoff_2)
qed

text \<open>
  Claim C1 as stated accepts a clean reply after fewer than six unusable ones. After five
  unusable replies the clean reply \<^verbatim>\<open>{}\<close> arrives on the sixth attempt and the loop
  aborts instead.
\<close>

theorem degraded_fifth_counterexample:
  "contains (lower unusable) unusable \<and>
   \<not> contains (lower ''{}'') unusable \<and> \<not> contains (lower ''{}'') bad_input \<and>
   strip ''{}'' \<noteq> too_many \<and> contains ''{}'' ''}'' \<and>
   fst (scrape_via_prompt scripted
          (map Some (replicate 5 unusable) @ [Some ''{}'']) ''doc'' ''{}'') =
     Inl (BadStateException ''Exceeded 5 wait states, starting over.'')"
proof -
  let ?p = "make_prompt ''doc'' ''{}''"
  have m: "\<forall>d\<in>set (replicate 5 unusable). contains (lower d) unusable"
    by (simp add: unusable_marked)
  have n: "length (replicate 5 unusable) \<le> 5" by simp
  have a: "ask_times scripted ?p (length (replicate 5 unusable))
             (map Some (replicate 5 unusable) @ [Some ''{}'']) =
           (map Some (replicate 5 unusable), [Some ''{}''])"
    by (rule ask_times_scripted)
  have b: "scrape_loop scripted ?p (length (replicate 5 unusable)) [Some ''{}''] =
     (Inl (BadStateException ''Exceeded 5 wait states, starting over.''), [], [Ask ?p])"
    by (rule scrape_loop_exceeded) (simp_all add: scripted_def)
  have "fst (scrape_via_prompt scripted
          (map Some (replicate 5 unusable) @ [Some ''{}'']) ''doc'' ''{}'') =
     Inl (BadStateException ''Exceeded 5 wait states, starting over.'')"
    by (simp only: scrape_via_prompt_degraded [OF m n a] b prod.case sum.case fst_conv)
  then show ?thesis by (simp add: unusable_marked braces_plain)
qed

subsection \<open>Refusals\<close>

text \<open>
  Claim C5, as amended. A document is due (its text is not blank and its id is not below
  the cursor). Its prompt is answered by at most four unusable replies \<open>ds\<close> and then by a
  reply \<open>r\<close> that carries the refusal marker \<open>bad_input\<close> in any letter case and not the
  marker \<open>unusable\<close>. Then no error is raised, the result is stored under the document's id
  with \<^verbatim>\<open>data\<close> and \<^verbatim>\<open>response\<close> both \<^verbatim>\<open>None\<close> (the reply text is not kept), the
  store is written out, and the loop goes on with the remaining documents.
\<close>

theorem refusal_recorded_without_reply:
  assumes "doc_text d \<noteq> []" and "\<forall>k. continue_at = Some k \<longrightarrow> k \<le> doc_id d"
    and "first_scrape s"
    and "\<forall>x\<in>set ds. contains (lower x) unusable" and "length ds < 5"
    and "ask_times ask (make_prompt (doc_text d) schema) (length ds) (chat s) = (map Some ds, c1)"
    and "ask c1 (make_prompt (doc_text d) schema) = (Some r, c2)"
    and "\<not> contains (lower r) unusable" and "contains (lower r) bad_input"
  shows "let prompt = make_prompt (doc_text d) schema;
             stored = upsert_result (results s)
               \<lparr>r_id = doc_id d, r_text = doc_text d, r_prompt = prompt,
                r_response = None, r_data = None\<rparr>;
             s' = s\<lparr>chat := c2, trace := trace s @ backoff prompt 0 (length ds) @ [Ask prompt],
                    results := stored, outfile := Some stored\<rparr>
         in run_step ask loads schema continue_at d s = (None, s') \<and>
            run_loop ask loads schema continue_at (d # docs) s =
              run_loop ask loads schema continue_at docs s'"
proof -
  from assms(5) have le: "length ds \<le> 5" by simp
  have "scrape_loop ask (make_prompt (doc_text d) schema) (length ds) c1 =
          (Inr None, c2, [Ask (make_prompt (doc_text d) schema)])"
    using assms(7) assms(5) assms(8) assms(9) by (rule scrape_loop_refused)
  then have "scrape_via_prompt ask (chat s) (doc_text d) schema =
          (Inr (make_prompt (doc_text d) schema, None), c2,
           backoff (make_prompt (doc_text d) schema) 0 (length ds) @
           [Ask (make_prompt (doc_text d) schema)])"
    by (simp add: scrape_via_prompt_degraded [OF assms(4) le assms(6)])
  then have "run_step ask loads schema continue_at d s =
     (None, s\<lparr>chat := c2,
              trace := trace s @ backoff (make_prompt (doc_text d) schema) 0 (length ds) @
                       [Ask (make_prompt (doc_text d) schema)],
              results := upsert_result (results s)
                \<lparr>r_id = doc_id d, r_text = doc_text d, r_prompt = make_prompt (doc_text d) schema,
                 r_response = None, r_data = None\<rparr>,
              outfile := Some (upsert_result (results s)
                \<lparr>r_id = doc_id d, r_text = doc_text d, r_prompt = make_prompt (doc_text d) schema,
                 r_response = None, r_data = None\<rparr>)\<rparr>)"
    by (simp add: run_step_active [OF assms(1,2,3)] parse_data_def)
  then show ?thesis by (simp add: Let_def)
qed

text \<open>
  The theorem for Claim C5 at a session that answers with one unusable reply and then
  with the refusal phrase.
\<close>

theorem refusal_recorded_without_reply_witness:
  "run_loop scripted (\<lambda>part. None :: unit option) ''{}'' None
     [\<lparr>doc_id = 0, doc_text = ''doc''\<rparr>]
     \<lparr>results = [], first_scrape = True, chat = map Some [unusable] @ [Some bad_input],
      trace = [], outfile = None\<rparr> =
   (None,
    \<lparr>results = [\<lparr>r_id = 0, r_text = ''doc'', r_prompt = make_prompt ''doc'' ''{}'',
                  r_response = None, r_data = None\<rparr>],
     first_scrape = True, chat = [],
     trace = [Ask (make_prompt ''doc'' ''{}''), Sleep 120, Ask (make_prompt ''doc'' ''{}'')],
     outfile = Some [\<lparr>r_id = 0, r_text = ''doc'', r_prompt = make_prompt ''doc'' ''{}'',
                      r_response = None, r_data = None\<rparr>]\<rparr>)"
proof -
  let ?d = "\<lparr>doc_id = 0, doc_text = ''doc''\<rparr>"
  let ?s = "\<lparr>results = [] :: unit result list, first_scrape = True,
            chat = map Some [unusable] @ [Some bad_input], trace = [], outfile = None\<rparr>"
  have h1: "doc_text ?d \<noteq> []" and h2: "\<forall>k. (None :: int option) = Some k \<longrightarrow> k \<le> doc_id ?d"
    and h3: "first_scrape ?s" and h4: "\<forall>x\<in>set [unusable]. contains (lower x) unusable"
    and h5: "length [unusable] < 5"
    by (simp_all add: unusable_marked)
  have h6: "ask_times scripted (make_prompt (doc_text ?d) ''{}'') (length [unusable]) (chat ?s) =
              (map Some [unusable], [Some bad_input])"
    using ask_times_scripted [of _ "[unusable]" "[Some bad_input]"] by simp
  have h7: "scripted [Some bad_input] (make_prompt (doc_text ?d) ''{}'') = (Some bad_input, [])"
    by (simp add: scripted_def)
  from refusal_recorded_without_reply [OF h1 h2 h3 h4 h5 h6 h7 bad_input_marked,
      where loads = "\<lambda>part. None" and docs = "[]"]
  show ?thesis by (simp add: Let_def backoff_1)
qed

text \<open>
  Claim C5 as stated keeps the reply text in the recorded result. A run over one document
  whose reply is the refusal phrase records \<^verbatim>\<open>response\<close> as \<^verbatim>\<open>None\<close>.
\<close>

theorem refusal_reply_dropped_counterexample:
  "contains (lower bad_input) bad_input \<and>
   run scripted (\<lambda>part. None :: unit option) [Some bad_input]
     [\<lparr>doc_id = 0, doc_text = ''doc''\<rparr>] ''{}'' None False None False =
   (None,
    \<lparr>results = [\<lparr>r_id = 0, r_text = ''doc'', r_prompt = make_prompt ''doc'' ''{}'',
                  r_response = None, r_data = None\<rparr>],
     first_scrape = True, chat = [],
     trace = [Ask (make_prompt ''doc'' ''{}'')],
     outfile = Some [\<lparr>r_id = 0, r_text = ''doc'', r_prompt = make_prompt ''doc'' ''{}'',
                      r_response = None, r_data = None\<rparr>]\<rparr>)"
proof -
  let ?p = "make_prompt ''doc'' ''{}''"
  have "scrape_loop scripted ?p 0 [Some bad_input] = (Inr None, [], [Ask ?p])"
    by (rule scrape_loop_refused [where r = bad_input])
       (simp_all add: scripted_def bad_input_marked)
  then have "scrape_via_prompt scripted [Some bad_input] ''doc'' ''{}'' =
               (Inr (?p, None), [], [Ask ?p])"
    by (simp add: scrape_via_prompt_def Let_def)
  then show ?thesis
    by (simp add: run_def run_step_def parse_data_def bad_input_marked Let_def)
qed

subsection \<open>Incomplete replies\<close>

text \<open>
  Claim C6. A document is due, and after at most five unusable replies \<open>ds\<close> its prompt is
  answered by a reply \<open>r\<close> that has no closing brace and matches none of the earlier checks
  (no marker \<open>unusable\<close>, no marker \<open>bad_input\<close>, not the rate-limit sentinel). Then
  \<^verbatim>\<open>scrape_via_prompt\<close> raises \<^verbatim>\<open>BadStateException\<close> with that reply as the last event:
  the prompt is not sent again. The exception leaves the loop of \<^verbatim>\<open>run\<close>: the store is
  unchanged and no later document is processed. The message is that of the brace test on
  attempts one to five and that of the counter on the sixth.
\<close>

theorem incomplete_reply_aborts:
  assumes "doc_text d \<noteq> []" and "\<forall>k. continue_at = Some k \<longrightarrow> k \<le> doc_id d"
    and "first_scrape s"
    and "\<forall>x\<in>set ds. contains (lower x) unusable" and "length ds \<le> 5"
    and "ask_times ask (make_prompt (doc_text d) schema) (length ds) (chat s) = (map Some ds, c1)"
    and "ask c1 (make_prompt (doc_text d) schema) = (Some r, c2)"
    and "\<not> contains (lower r) unusable" and "\<not> contains (lower r) bad_input"
    and "strip r \<noteq> too_many" and "\<not> contains r ''}''"
  shows "let prompt = make_prompt (doc_text d) schema;
             e = BadStateException (if length ds < 5 then ''Not returning full JSON.''
                                    else ''Exceeded 5 wait states, starting over.'');
             evs = backoff prompt 0 (length ds) @ [Ask prompt]
         in scrape_via_prompt ask (chat s) (doc_text d) schema = (Inl e, c2, evs) \<and>
            run_loop ask loads schema continue_at (d # docs) s =
              (Some e, s\<lparr>chat := c2, trace := trace s @ evs\<rparr>)"
proof -
  let ?p = "make_prompt (doc_text d) schema"
  let ?e = "BadStateException (if length ds < 5 then ''Not returning full JSON.''
                               else ''Exceeded 5 wait states, starting over.'')"
  have "scrape_loop ask ?p (length ds) c1 = (Inl ?e, c2, [Ask ?p])"
  proof (cases "length ds < 5")
    case True
    have "scrape_loop ask ?p (length ds) c1 =
            (Inl (BadStateException ''Not returning full JSON.''), c2, [Ask ?p])"
      using assms(7) True assms(8) assms(9) assms(10) assms(11)
      by (rule scrape_loop_incomplete)
    with True show ?thesis by simp
  next
    case False
    then have "5 \<le> length ds" by simp
    with assms(7) have "scrape_loop ask ?p (length ds) c1 =
            (Inl (BadStateException ''Exceeded 5 wait states, starting over.''), c2, [Ask ?p])"
      by (rule scrape_loop_exceeded)
    with False show ?thesis by simp
  qed
  then have sc: "scrape_via_prompt ask (chat s) (doc_text d) schema =
           (Inl ?e, c2, backoff ?p 0 (length ds) @ [Ask ?p])"
    by (simp add: scrape_via_prompt_degraded [OF assms(4) assms(5) assms(6)])
  then have "run_step ask loads schema continue_at d s =
           (Some ?e, s\<lparr>chat := c2, trace := trace s @ backoff ?p 0 (length ds) @ [Ask ?p]\<rparr>)"
    by (simp add: run_step_active [OF assms(1,2,3)])
  with sc show ?thesis by (simp add: Let_def)
qed

text \<open>
  The theorem for Claim C6 at a session whose first reply is \<^verbatim>\<open>oops\<close>: the run stops
  after one request, and the second reply of the session is never asked for.
\<close>

theorem incomplete_reply_aborts_witness:
  "run_loop scripted (\<lambda>part. None :: unit option) ''{}'' None
     [\<lparr>doc_id = 0, doc_text = ''doc''\<rparr>, \<lparr>doc_id = 1, doc_text = ''more''\<rparr>]
     \<lparr>results = [], first_scrape = True, chat = [Some ''oops'', Some ''{}''],
      trace = [], outfile = None\<rparr> =
   (Some (BadStateException ''Not returning full JSON.''),
    \<lparr>results = [], first_scrape = True, chat = [Some ''{}''],
     trace = [Ask (make_prompt ''doc'' ''{}'')], outfile = None\<rparr>)"
proof -
  let ?d = "\<lparr>doc_id = 0, doc_text = ''doc''\<rparr>"
  let ?s = "\<lparr>results = [] :: unit result list, first_scrape = True,
            chat = [Some ''oops'', Some ''{}''], trace = [], outfile = None\<rparr>"
  have h1: "doc_text ?d \<noteq> []" and h2: "\<forall>k. (None :: int option) = Some k \<longrightarrow> k \<le> doc_id ?d"
    and h3: "first_scrape ?s" and h4: "\<forall>x\<in>set []. contains (lower x) unusable"
    and h5: "length ([] :: string list) \<le> 5"
    by simp_all
  have h6: "ask_times scripted (make_prompt (doc_text ?d) ''{}'') (length ([] :: string list))
              (chat ?s) = (map Some [], [Some ''oops'', Some ''{}''])"
    by simp
  have h7: "scripted [Some ''oops'', Some ''{}''] (make_prompt (doc_text ?d) ''{}'') =
              (Some ''oops'', [Some ''{}''])"
    by (simp add: scripted_def)
  from incomplete_reply_aborts [OF h1 h2 h3 h4 h5 h6 h7 oops_plain,
      where loads = "\<lambda>part. None" and docs = "[\<lparr>doc_id = 1, doc_text = ''more''\<rparr>]"]
  show ?thesis by (simp add: Let_def backoff_0)
qed

section \<open>Properties of the orchestrator\<close>

subsection \<open>Splitting a reply at the fences\<close>


lemma split_none: "\<not> contains s sep \<Longrightarrow> split sep s = [s]"
  by (induction s) auto


lemma parse_data_unfenced: "\<not> contains r ''```'' \<Longrightarrow> parse_data loads (Some r) = None"
  by (simp add: parse_data_def split_none)

subsection \<open>Pacing\<close>

text \<open>
  The flag \<^verbatim>\<open>first_scrape\<close> starts as \<^verbatim>\<open>True\<close> and is only assigned inside the branch
  taken when it is \<^verbatim>\<open>False\<close>, so it stays \<^verbatim>\<open>True\<close> and that branch never runs. The other
  sleeps are of 5, 3600 and multiples of 120 seconds.
\<close>

lemma scrape_loop_never_paces: "Sleep 60 \<notin> set (snd (snd (scrape_loop ask p waited c)))"
proof (induction ask p waited c rule: scrape_loop.induct)
  case (1 ask p waited c)
  show ?case
    by (subst scrape_loop.simps) (use 1 in \<open>auto split: prod.splits option.splits\<close>)
qed

lemma scrape_via_prompt_never_paces:
  "Sleep 60 \<notin> set (snd (snd (scrape_via_prompt ask c page_text schema)))"
  using scrape_loop_never_paces [of ask "make_prompt page_text schema" 0 c]
  by (auto simp: scrape_via_prompt_def Let_def split: prod.splits sum.splits)

lemma run_step_never_paces:
  assumes "first_scrape s" and "Sleep 60 \<notin> set (trace s)"
  shows "first_scrape (snd (run_step ask loads schema continue_at d s)) \<and>
         Sleep 60 \<notin> set (trace (snd (run_step ask loads schema continue_at d s)))"
  using assms scrape_via_prompt_never_paces [of ask "chat s" "doc_text d" schema]
  by (auto simp: run_step_def Let_def split: prod.splits sum.splits option.splits)

lemma run_loop_never_paces:
  "first_scrape s \<Longrightarrow> Sleep 60 \<notin> set (trace s) \<Longrightarrow>
   Sleep 60 \<notin> set (trace (snd (run_loop ask loads schema continue_at docs s)))"
proof (induction docs arbitrary: s)
  case Nil
  then show ?case by simp
next
  case (Cons d docs)
  obtain e s' where st: "run_step ask loads schema continue_at d s = (e, s')"
    by (cases "run_step ask loads schema continue_at d s")
  from run_step_never_paces [OF Cons.prems, of ask loads schema continue_at d] st
  have inv: "first_scrape s'" "Sleep 60 \<notin> set (trace s')" by simp_all
  show ?case
  proof (cases e)
    case None
    with st Cons.IH [OF inv] show ?thesis by simp
  next
    case (Some x)
    with st inv show ?thesis by simp
  qed
qed

lemma run_never_paces:
  "Sleep 60 \<notin> set (trace (snd (run ask loads c docs schema file headless continue_at continue_last)))"
proof -
  let ?s0 = "\<lparr>results = (case file of None \<Rightarrow> [] | Some rs \<Rightarrow> rs), first_scrape = True,
             chat = c, trace = (if headless then [Sleep 5] else []), outfile = file\<rparr>"
  have a: "first_scrape ?s0" and b: "Sleep 60 \<notin> set (trace ?s0)" by simp_all
  have loop: "Sleep 60 \<notin> set (trace (snd (run_loop ask loads schema k docs ?s0)))" for k
    using a b by (rule run_loop_never_paces)
  show ?thesis
  proof (cases continue_last)
    case False
    with loop [of continue_at] show ?thesis by (simp add: run_def)
  next
    case True
    show ?thesis
    proof (cases "resume_cursor (results ?s0)")
      case (Inl e)
      with True b show ?thesis by (simp add: run_def)
    next
      case (Inr k)
      with True loop [of "Some k"] show ?thesis by (simp add: run_def)
    qed
  qed
qed

text \<open>
  Claim C2 asks for a sleep of 60 seconds before every request but the first. No run
  sleeps for 60 seconds at any point; in particular the run over two documents with the
  replies \<^verbatim>\<open>{}\<close> and \<^verbatim>\<open>{}\<close> sends its two prompts back to back.
\<close>

theorem pacing_delay_never_applied:
  "Sleep 60 \<notin> set (trace (snd (run ask loads c docs schema file headless continue_at continue_last))) \<and>
   run scripted (\<lambda>part. None :: unit option) [Some ''{}'', Some ''{}'']
     [\<lparr>doc_id = 0, doc_text = ''one''\<rparr>, \<lparr>doc_id = 1, doc_text = ''two''\<rparr>] ''{}''
     None False None False =
   (None,
    \<lparr>results = [\<lparr>r_id = 0, r_text = ''one'', r_prompt = make_prompt ''one'' ''{}'',
                  r_response = Some ''{}'', r_data = None\<rparr>,
                 \<lparr>r_id = 1, r_text = ''two'', r_prompt = make_prompt ''two'' ''{}'',
                  r_response = Some ''{}'', r_data = None\<rparr>],
     first_scrape = True, chat = [],
     trace = [Ask (make_prompt ''one'' ''{}''), Ask (make_prompt ''two'' ''{}'')],
     outfile = Some [\<lparr>r_id = 0, r_text = ''one'', r_prompt = make_prompt ''one'' ''{}'',
                      r_response = Some ''{}'', r_data = None\<rparr>,
                     \<lparr>r_id = 1, r_text = ''two'', r_prompt = make_prompt ''two'' ''{}'',
                      r_response = Some ''{}'', r_data = None\<rparr>]\<rparr>)"
proof
  show "Sleep 60 \<notin> set (trace (snd (run ask loads c docs schema file headless continue_at continue_last)))"
    by (rule run_never_paces)
next
  note sv = scrape_via_prompt_plain [OF braces_plain]
  show "run scripted (\<lambda>part. None :: unit option) [Some ''{}'', Some ''{}'']
     [\<lparr>doc_id = 0, doc_text = ''one''\<rparr>, \<lparr>doc_id = 1, doc_text = ''two''\<rparr>] ''{}''
     None False None False =
   (None,
    \<lparr>results = [\<lparr>r_id = 0, r_text = ''one'', r_prompt = make_prompt ''one'' ''{}'',
                  r_response = Some ''{}'', r_data = None\<rparr>,
                 \<lparr>r_id = 1, r_text = ''two'', r_prompt = make_prompt ''two'' ''{}'',
                  r_response = Some ''{}'', r_data = None\<rparr>],
     first_scrape = True, chat = [],
     trace = [Ask (make_prompt ''one'' ''{}''), Ask (make_prompt ''two'' ''{}'')],
     outfile = Some [\<lparr>r_id = 0, r_text = ''one'', r_prompt = make_prompt ''one'' ''{}'',
                      r_response = Some ''{}'', r_data = None\<rparr>,
                     \<lparr>r_id = 1, r_text = ''two'', r_prompt = make_prompt ''two'' ''{}'',
                      r_response = Some ''{}'', r_data = None\<rparr>]\<rparr>)"
    by (simp add: run_def run_step_def sv parse_data_unfenced braces_unfenced Let_def)
qed

subsection \<open>Resuming\<close>

lemma run_step_skipped:
  "doc_id d < k \<Longrightarrow> run_step ask loads schema (Some k) d s = (None, s)"
  by (simp add: run_step_def Let_def)

lemma run_loop_skips:
  "run_loop ask loads schema (Some k) docs s =
   run_loop ask loads schema (Some k) (filter (\<lambda>d. k \<le> doc_id d) docs) s"
  by (induction docs arbitrary: s) (auto simp: run_step_skipped split: prod.splits option.splits)

text \<open>
  Claim C7. With \<^verbatim>\<open>continue_last\<close> and a prior store \<open>rs\<close> that is not empty, the cursor
  is the largest stored id plus one, and the run is the loop over the documents whose id
  is at least the cursor: a document with a smaller id leaves the session as it was,
  whether its id is in the store or not.
\<close>

theorem resume_skips_below_cursor:
  assumes "rs \<noteq> []"
  shows "resume_cursor rs = Inr (Max (set (map r_id rs)) + 1) \<and>
         run ask loads c docs schema (Some rs) headless continue_at True =
           run_loop ask loads schema (Some (Max (set (map r_id rs)) + 1))
             (filter (\<lambda>d. Max (set (map r_id rs)) + 1 \<le> doc_id d) docs)
             \<lparr>results = rs, first_scrape = True, chat = c,
              trace = (if headless then [Sleep 5] else []), outfile = Some rs\<rparr> \<and>
         (doc_id d < Max (set (map r_id rs)) + 1 \<longrightarrow>
            run_step ask loads schema (Some (Max (set (map r_id rs)) + 1)) d s = (None, s))"
proof -
  from assms have cur: "resume_cursor rs = Inr (Max (set (map r_id rs)) + 1)"
    by (simp add: resume_cursor_def)
  have "run ask loads c docs schema (Some rs) headless continue_at True =
           run_loop ask loads schema (Some (Max (set (map r_id rs)) + 1)) docs
             \<lparr>results = rs, first_scrape = True, chat = c,
              trace = (if headless then [Sleep 5] else []), outfile = Some rs\<rparr>"
    by (simp add: run_def cur)
  with cur show ?thesis
    by (simp add: run_loop_skips [symmetric] run_step_skipped)
qed

text \<open>
  The theorem for Claim C7 at the store with ids 0, 2 and 5: the cursor is 6, the document
  with id 3 is passed over, and only the document with id 6 is sent.
\<close>

theorem resume_skips_below_cursor_witness:
  "resume_cursor
     [\<lparr>r_id = 0, r_text = ''a'', r_prompt = ''p'', r_response = None, r_data = None :: unit option\<rparr>,
      \<lparr>r_id = 2, r_text = ''b'', r_prompt = ''p'', r_response = None, r_data = None\<rparr>,
      \<lparr>r_id = 5, r_text = ''c'', r_prompt = ''p'', r_response = None, r_data = None\<rparr>] = Inr 6 \<and>
   run scripted (\<lambda>part. None :: unit option) [Some ''{}'']
     [\<lparr>doc_id = 3, doc_text = ''three''\<rparr>, \<lparr>doc_id = 6, doc_text = ''six''\<rparr>] ''{}''
     (Some [\<lparr>r_id = 0, r_text = ''a'', r_prompt = ''p'', r_response = None, r_data = None\<rparr>,
            \<lparr>r_id = 2, r_text = ''b'', r_prompt = ''p'', r_response = None, r_data = None\<rparr>,
            \<lparr>r_id = 5, r_text = ''c'', r_prompt = ''p'', r_response = None, r_data = None\<rparr>])
     False None True =
   (None,
    \<lparr>results =
       [\<lparr>r_id = 0, r_text = ''a'', r_prompt = ''p'', r_response = None, r_data = None\<rparr>,
        \<lparr>r_id = 2, r_text = ''b'', r_prompt = ''p'', r_response = None, r_data = None\<rparr>,
        \<lparr>r_id = 5, r_text = ''c'', r_prompt = ''p'', r_response = None, r_data = None\<rparr>,
        \<lparr>r_id = 6, r_text = ''six'', r_prompt = make_prompt ''six'' ''{}'',
         r_response = Some ''{}'', r_data = None\<rparr>],
     first_scrape = True, chat = [], trace = [Ask (make_prompt ''six'' ''{}'')],
     outfile = Some
       [\<lparr>r_id = 0, r_text = ''a'', r_prompt = ''p'', r_response = None, r_data = None\<rparr>,
        \<lparr>r_id = 2, r_text = ''b'', r_prompt = ''p'', r_response = None, r_data = None\<rparr>,
        \<lparr>r_id = 5, r_text = ''c'', r_prompt = ''p'', r_response = None, r_data = None\<rparr>,
        \<lparr>r_id = 6, r_text = ''six'', r_prompt = make_prompt ''six'' ''{}'',
         r_response = Some ''{}'', r_data = None\<rparr>]\<rparr>)"
proof -
  let ?rs = "[\<lparr>r_id = 0, r_text = ''a'', r_prompt = ''p'', r_response = None, r_data = None :: unit option\<rparr>,
      \<lparr>r_id = 2, r_text = ''b'', r_prompt = ''p'', r_response = None, r_data = None\<rparr>,
      \<lparr>r_id = 5, r_text = ''c'', r_prompt = ''p'', r_response = None, r_data = None\<rparr>]"
  let ?docs = "[\<lparr>doc_id = 3, doc_text = ''three''\<rparr>, \<lparr>doc_id = 6, doc_text = ''six''\<rparr>]"
  let ?s0 = "\<lparr>results = ?rs, first_scrape = True, chat = [Some ''{}''], trace = [],
             outfile = Some ?rs\<rparr>"
  have ne: "?rs \<noteq> []" by simp
  have mx: "Max (set (map r_id ?rs)) + 1 = 6" by simp
  note sv = scrape_via_prompt_plain [OF braces_plain]
  note t = resume_skips_below_cursor [OF ne, where ask = scripted and loads = "\<lambda>part. None"
      and c = "[Some ''{}'']" and schema = "''{}''" and headless = False and continue_at = None
      and docs = ?docs and d = "\<lparr>doc_id = 3, doc_text = ''three''\<rparr>" and s = ?s0,
      unfolded mx]
  from t have cur: "resume_cursor ?rs = Inr 6" by blast
  from t have "run scripted (\<lambda>part. None) [Some ''{}''] ?docs ''{}'' (Some ?rs) False None True =
      run_loop scripted (\<lambda>part. None) ''{}'' (Some 6) (filter (\<lambda>d. 6 \<le> doc_id d) ?docs)
        \<lparr>results = ?rs, first_scrape = True, chat = [Some ''{}''],
         trace = (if False then [Sleep 5] else []), outfile = Some ?rs\<rparr>"
    by blast
  then have "run scripted (\<lambda>part. None) [Some ''{}''] ?docs ''{}'' (Some ?rs) False None True =
      run_loop scripted (\<lambda>part. None) ''{}'' (Some 6) [\<lparr>doc_id = 6, doc_text = ''six''\<rparr>] ?s0"
    by simp
  with cur show ?thesis
    by (simp add: run_step_def sv parse_data_unfenced braces_unfenced Let_def)
qed

text \<open>
  Claim C10. With \<^verbatim>\<open>continue_last\<close> and no prior result, be the output file absent or an
  empty array, \<^verbatim>\<open>max\<close> raises \<^verbatim>\<open>ValueError\<close>: the run ends with that error before the
  loop over the documents starts, with nothing sent and nothing stored.
\<close>

theorem continue_last_on_empty_store:
  "run ask loads c docs schema None headless continue_at True =
     (Some ValueError,
      \<lparr>results = [], first_scrape = True, chat = c,
       trace = (if headless then [Sleep 5] else []), outfile = None\<rparr>) \<and>
   run ask loads c docs schema (Some []) headless continue_at True =
     (Some ValueError,
      \<lparr>results = [], first_scrape = True, chat = c,
       trace = (if headless then [Sleep 5] else []), outfile = Some []\<rparr>)"
  by (simp add: run_def resume_cursor_def)

subsection \<open>Parsing an accepted reply\<close>



end
